theory Spec2Isabelle
  imports Main
begin

section \<open>The Dashboard page (frontend/src/pages/Dashboard.tsx)\<close>

text \<open>
  The component keeps two pieces of React state,
  \<^verbatim>\<open>const [companyName, setCompanyName] = useState("")\<close> and
  \<^verbatim>\<open>const [isAnalyzing, setIsAnalyzing] = useState(false)\<close>.
\<close>

record dashboard_state =
  companyName :: string
  isAnalyzing :: bool

definition initial_state :: dashboard_state where
  "initial_state = \<lparr>companyName = [], isAnalyzing = False\<rparr>"

text \<open>
  The two state setters returned by \<^verbatim>\<open>useState\<close>. A timeout callback of the page is a
  sequence of setter calls (\<^verbatim>\<open>() => setIsAnalyzing(false)\<close> is the only one).
\<close>

datatype setter = SetCompanyName string | SetIsAnalyzing bool

fun apply_setter :: "setter \<Rightarrow> dashboard_state \<Rightarrow> dashboard_state" where
  "apply_setter (SetCompanyName v) s = s\<lparr>companyName := v\<rparr>"
| "apply_setter (SetIsAnalyzing b) s = s\<lparr>isAnalyzing := b\<rparr>"

text \<open>
  The statements an event handler of the page can be made of: a call on the event
  object, a state setter, a console line, a timer registration, and a network request
  (\<^verbatim>\<open>fetch\<close>, axios), which the page never issues but which is what an API call
  would be.
\<close>

datatype stmt =
  PreventDefault
| Call setter
| ConsoleLog "string list"
| SetTimeout "setter list" nat
| HttpRequest string string

record dom_event =
  defaultPrevented :: bool

definition fresh_event :: dom_event where
  "fresh_event = \<lparr>defaultPrevented = False\<rparr>"

text \<open>
  What a handler can touch: the component's state, the console, the pending timers
  (due time in milliseconds and callback, in registration order), the clock, and the
  network requests sent so far (method and URL).
\<close>

record world =
  state :: dashboard_state
  console :: "string list list"
  timers :: "(nat \<times> setter list) list"
  now :: nat
  requests :: "(string \<times> string) list"

definition initial_world :: world where
  "initial_world =
     \<lparr>state = initial_state, console = [], timers = [], now = 0, requests = []\<rparr>"

fun exec :: "stmt \<Rightarrow> dom_event \<times> world \<Rightarrow> dom_event \<times> world" where
  "exec PreventDefault (e, w) = (e\<lparr>defaultPrevented := True\<rparr>, w)"
| "exec (Call f) (e, w) = (e, w\<lparr>state := apply_setter f (state w)\<rparr>)"
| "exec (ConsoleLog args) (e, w) = (e, w\<lparr>console := console w @ [args]\<rparr>)"
| "exec (SetTimeout cb ms) (e, w) = (e, w\<lparr>timers := timers w @ [(now w + ms, cb)]\<rparr>)"
| "exec (HttpRequest m url) (e, w) = (e, w\<lparr>requests := requests w @ [(m, url)]\<rparr>)"

text \<open>
  \<^verbatim>\<open>
  const handleAnalyze = (e: React.FormEvent) => {
    e.preventDefault();
    setIsAnalyzing(true);
    // Analysis logic will be added later
    console.log("Analyzing company:", companyName);
    // Simulate analysis
    setTimeout(() => setIsAnalyzing(false), 2000);
  };
  \<close>
  The body reads \<^verbatim>\<open>companyName\<close> from the render that created the handler, which
  is the state at the time of the event. React applies a setter's update when the
  handler has returned; no statement of the body reads the state after a setter, so
  the update is applied in place.
\<close>

definition handleAnalyze_body :: "string \<Rightarrow> stmt list" where
  "handleAnalyze_body name =
     [PreventDefault,
      Call (SetIsAnalyzing True),
      ConsoleLog [''Analyzing company:'', name],
      SetTimeout [SetIsAnalyzing False] 2000]"

definition handleAnalyze :: "dom_event \<Rightarrow> world \<Rightarrow> dom_event \<times> world" where
  "handleAnalyze e w = fold exec (handleAnalyze_body (companyName (state w))) (e, w)"

text \<open>\<^verbatim>\<open>onChange={(e) => setCompanyName(e.target.value)}\<close>\<close>

definition handleChange_body :: "string \<Rightarrow> stmt list" where
  "handleChange_body v = [Call (SetCompanyName v)]"

definition handleChange :: "string \<Rightarrow> world \<Rightarrow> world" where
  "handleChange v w = snd (fold exec (handleChange_body v) (fresh_event, w))"

subsection \<open>What the component renders\<close>

record card =
  card_title :: string
  card_value :: string
  card_caption :: string

record panel =
  panel_title :: string
  panel_description :: string
  panel_body :: string

record view =
  input_placeholder :: string
  input_value :: string
  input_required :: bool
  button_disabled :: bool
  button_label :: string
  result_cards :: "card list"
  panels :: "panel list"

text \<open>
  The JSX of lines 20 to 149: the search form (input and submit button), the results
  grid of three cards, and the three panels of the visualisation section.
\<close>

definition render :: "dashboard_state \<Rightarrow> view" where
  "render s =
     \<lparr>input_placeholder = ''Enter company name...'',
      input_value = companyName s,
      input_required = True,
      button_disabled = isAnalyzing s,
      button_label = (if isAnalyzing s then ''Analyzing...'' else ''Analyze''),
      result_cards =
        [\<lparr>card_title = ''Twitter Sentiment'', card_value = ''--'',
           card_caption = ''Awaiting analysis''\<rparr>,
         \<lparr>card_title = ''Reddit Sentiment'', card_value = ''--'',
           card_caption = ''Awaiting analysis''\<rparr>,
         \<lparr>card_title = ''News Sentiment'', card_value = ''--'',
           card_caption = ''Awaiting analysis''\<rparr>],
      panels =
        [\<lparr>panel_title = ''Sentiment Over Time'',
           panel_description = ''Trend analysis across all sources'',
           panel_body = ''Chart will appear here''\<rparr>,
         \<lparr>panel_title = ''Source Distribution'',
           panel_description = ''Breakdown by platform'',
           panel_body = ''Chart will appear here''\<rparr>,
         \<lparr>panel_title = ''Overall Company Image'',
           panel_description = ''AI-generated summary of public perception'',
           panel_body = ''Enter a company name and click '' @ [CHR 0x22] @ ''Analyze''
             @ [CHR 0x22] @ '' to see results''\<rparr>]\<rparr>"

subsection \<open>The page in the browser\<close>

text \<open>
  The form is \<^verbatim>\<open><form onSubmit={handleAnalyze}>\<close> with a \<^verbatim>\<open>required\<close> input and a
  \<^verbatim>\<open>type="submit"\<close> button. \<^verbatim>\<open>Input\<close> and \<^verbatim>\<open>Button\<close> come from the UI kit
  (\<^verbatim>\<open>@/components/ui\<close>) and are taken to hand \<^verbatim>\<open>value\<close>, \<^verbatim>\<open>required\<close> and
  \<^verbatim>\<open>disabled\<close> to the native elements. A browser submits a form (by a click on the
  button or by Enter in the input) only when its submit button is not disabled and no
  required field is empty.
\<close>

definition can_submit :: "view \<Rightarrow> bool" where
  "can_submit v = (\<not> button_disabled v \<and> \<not> (input_required v \<and> input_value v = []))"

text \<open>
  Time passing: the timers due by the new time fire in the order of their due times
  (registration order among equals), each running its callback; the others stay.
\<close>

definition run_callback :: "setter list \<Rightarrow> world \<Rightarrow> world" where
  "run_callback cb w = w\<lparr>state := fold apply_setter cb (state w)\<rparr>"

definition elapse :: "nat \<Rightarrow> world \<Rightarrow> world" where
  "elapse ms w =
     (let t = now w + ms;
          due = sort_key fst (filter (\<lambda>tm. fst tm \<le> t) (timers w));
          rest = filter (\<lambda>tm. \<not> fst tm \<le> t) (timers w)
      in (fold (\<lambda>tm. run_callback (snd tm)) due (w\<lparr>timers := rest\<rparr>))\<lparr>now := t\<rparr>)"

datatype ui_event = Change string | SubmitForm | Elapse nat

fun step :: "ui_event \<Rightarrow> world \<Rightarrow> world" where
  "step (Change v) w = handleChange v w"
| "step SubmitForm w =
     (if can_submit (render (state w)) then snd (handleAnalyze fresh_event w) else w)"
| "step (Elapse ms) w = elapse ms w"

definition run :: "ui_event list \<Rightarrow> world" where
  "run evs = fold step evs initial_world"

fun total_elapsed :: "ui_event list \<Rightarrow> nat" where
  "total_elapsed [] = 0"
| "total_elapsed (Elapse ms # evs) = ms + total_elapsed evs"
| "total_elapsed (_ # evs) = total_elapsed evs"

subsection \<open>Invariants of the pending timers\<close>

text \<open>
  Every pending timer is due after the present and within \<open>r\<close> milliseconds, and resets
  the flag; while the flag is set, a timer is pending.
\<close>

definition timers_ok :: "nat \<Rightarrow> world \<Rightarrow> bool" where
  "timers_ok r w =
     ((\<forall>tm \<in> set (timers w).
         now w < fst tm \<and> fst tm \<le> now w + r \<and> snd tm = [SetIsAnalyzing False])
      \<and> (isAnalyzing (state w) \<longrightarrow> timers w \<noteq> []))"

text \<open>
  At most one timer is pending, and one is pending exactly while the flag is set.
\<close>

definition single_flight :: "world \<Rightarrow> bool" where
  "single_flight w =
     (length (timers w) \<le> 1 \<and> isAnalyzing (state w) = (timers w \<noteq> [])
      \<and> (\<forall>tm \<in> set (timers w). snd tm = [SetIsAnalyzing False]))"

section \<open>Properties of the Dashboard page\<close>

lemma handleAnalyze_result:
  "handleAnalyze e w =
     (e\<lparr>defaultPrevented := True\<rparr>,
      w\<lparr>state := (state w)\<lparr>isAnalyzing := True\<rparr>,
        console := console w @ [[''Analyzing company:'', companyName (state w)]],
        timers := timers w @ [(now w + 2000, [SetIsAnalyzing False])]\<rparr>)"
  by (simp add: handleAnalyze_def handleAnalyze_body_def)

lemma requests_run_callback [simp]: "requests (run_callback cb w) = requests w"
  by (simp add: run_callback_def)

lemma requests_fold_run_callback:
  "requests (fold (\<lambda>tm. run_callback (snd tm)) tms w) = requests w"
  by (induction tms arbitrary: w) simp_all

lemma requests_elapse [simp]: "requests (elapse ms w) = requests w"
  by (simp add: elapse_def Let_def requests_fold_run_callback)

lemma requests_step [simp]: "requests (step ev w) = requests w"
  by (cases ev)
    (simp_all add: handleChange_def handleChange_body_def handleAnalyze_result)

lemma requests_fold_step: "requests (fold step evs w) = requests w"
  by (induction evs arbitrary: w) simp_all

lemma fold_callbacks_timers [simp]:
  "timers (fold (\<lambda>tm. run_callback (snd tm)) tms w) = timers w"
  by (induction tms arbitrary: w) (simp_all add: run_callback_def)

lemma fold_callbacks_now [simp]:
  "now (fold (\<lambda>tm. run_callback (snd tm)) tms w) = now w"
  by (induction tms arbitrary: w) (simp_all add: run_callback_def)

lemma fold_callbacks_reset:
  "\<forall>tm \<in> set tms. snd tm = [SetIsAnalyzing False] \<Longrightarrow> tms \<noteq> [] \<Longrightarrow>
   \<not> isAnalyzing (state (fold (\<lambda>tm. run_callback (snd tm)) tms w))"
proof (induction tms arbitrary: w)
  case Nil
  then show ?case by simp
next
  case (Cons tm tms)
  show ?case
  proof (cases "tms = []")
    case True
    with Cons.prems show ?thesis by (simp add: run_callback_def)
  next
    case False
    with Cons show ?thesis by simp
  qed
qed

lemma timers_ok_initial: "timers_ok r initial_world"
  by (simp add: timers_ok_def initial_world_def initial_state_def)

lemma timers_ok_handleAnalyze:
  "timers_ok r w \<Longrightarrow> r \<le> 2000 \<Longrightarrow> timers_ok 2000 (snd (handleAnalyze e w))"
  by (auto simp: timers_ok_def handleAnalyze_result)

lemma timers_ok_handleChange: "timers_ok r w \<Longrightarrow> timers_ok r (handleChange v w)"
  by (simp add: timers_ok_def handleChange_def handleChange_body_def)

lemma timers_ok_elapse:
  assumes "timers_ok r w"
  shows "timers_ok (r - ms) (elapse ms w)"
proof -
  let ?t = "now w + ms"
  let ?due = "filter (\<lambda>tm. fst tm \<le> ?t) (timers w)"
  let ?rest = "filter (\<lambda>tm. \<not> fst tm \<le> ?t) (timers w)"
  have cb: "\<forall>tm \<in> set (sort_key fst ?due). snd tm = [SetIsAnalyzing False]"
    using assms by (simp add: timers_ok_def)
  have rest: "\<forall>tm \<in> set ?rest.
      ?t < fst tm \<and> fst tm \<le> ?t + (r - ms) \<and> snd tm = [SetIsAnalyzing False]"
    using assms by (auto simp: timers_ok_def)
  have flag: "isAnalyzing (state (elapse ms w)) \<longrightarrow> ?rest \<noteq> []"
  proof (cases "?due = []")
    case True
    then have "?rest = timers w"
      by (simp add: filter_empty_conv)
    with True assms show ?thesis
      by (simp add: elapse_def Let_def timers_ok_def)
  next
    case False
    then have "sort_key fst ?due \<noteq> []"
      by (metis length_0_conv length_sort)
    from fold_callbacks_reset [OF cb this]
    show ?thesis by (simp add: elapse_def Let_def)
  qed
  have "timers (elapse ms w) = ?rest" and "now (elapse ms w) = ?t"
    by (simp_all add: elapse_def Let_def)
  with rest flag show ?thesis
    unfolding timers_ok_def by auto
qed

lemma timers_ok_mono: "timers_ok r w \<Longrightarrow> r \<le> r' \<Longrightarrow> timers_ok r' w"
  by (fastforce simp: timers_ok_def)

lemma timers_ok_step:
  assumes "timers_ok 2000 w"
  shows "timers_ok 2000 (step ev w)"
proof (cases ev)
  case (Change v)
  with assms show ?thesis by (simp add: timers_ok_handleChange)
next
  case SubmitForm
  with assms show ?thesis by (simp add: timers_ok_handleAnalyze)
next
  case (Elapse ms)
  from timers_ok_elapse [OF assms, of ms] have "timers_ok 2000 (elapse ms w)"
    by (rule timers_ok_mono) simp
  with Elapse show ?thesis by simp
qed

lemma timers_ok_fold_step: "timers_ok 2000 w \<Longrightarrow> timers_ok 2000 (fold step evs w)"
  by (induction evs arbitrary: w) (simp_all add: timers_ok_step)

lemma timers_ok_run: "timers_ok 2000 (run evs)"
  unfolding run_def by (rule timers_ok_fold_step) (rule timers_ok_initial)

lemma timers_ok_zero: "timers_ok 0 w \<Longrightarrow> \<not> isAnalyzing (state w)"
  by (cases "timers w") (auto simp: timers_ok_def)

lemma analysis_ends:
  "timers_ok r w \<Longrightarrow> SubmitForm \<notin> set evs \<Longrightarrow> r \<le> total_elapsed evs \<Longrightarrow>
   \<not> isAnalyzing (state (fold step evs w))"
proof (induction evs arbitrary: w r)
  case Nil
  then show ?case by (simp add: timers_ok_zero)
next
  case (Cons ev evs)
  show ?case
  proof (cases ev)
    case (Change v)
    with Cons.prems have "timers_ok r (step ev w)" "r \<le> total_elapsed evs"
      by (simp_all add: timers_ok_handleChange)
    with Cons.IH [of r "step ev w"] Cons.prems show ?thesis by simp
  next
    case SubmitForm
    with Cons.prems show ?thesis by simp
  next
    case (Elapse ms)
    with Cons.prems have "timers_ok (r - ms) (step ev w)" "r - ms \<le> total_elapsed evs"
      by (simp_all add: timers_ok_elapse)
    with Cons.IH [of "r - ms" "step ev w"] Cons.prems show ?thesis by simp
  qed
qed

lemma single_flight_elapse:
  assumes "single_flight w"
  shows "single_flight (elapse ms w)"
proof -
  let ?t = "now w + ms"
  let ?due = "filter (\<lambda>tm. fst tm \<le> ?t) (timers w)"
  let ?rest = "filter (\<lambda>tm. \<not> fst tm \<le> ?t) (timers w)"
  have tm: "timers (elapse ms w) = ?rest"
    by (simp add: elapse_def Let_def)
  have len: "length ?due + length ?rest = length (timers w)"
    by (rule sum_length_filter_compl)
  have cb: "\<forall>tm \<in> set (sort_key fst ?due). snd tm = [SetIsAnalyzing False]"
    using assms by (simp add: single_flight_def)
  have flag: "isAnalyzing (state (elapse ms w)) = (?rest \<noteq> [])"
  proof (cases "?due = []")
    case True
    then have "?rest = timers w"
      by (simp add: filter_empty_conv)
    with True assms show ?thesis
      by (simp add: elapse_def Let_def single_flight_def)
  next
    case False
    then have ne: "sort_key fst ?due \<noteq> []"
      by (metis length_0_conv length_sort)
    from False have "0 < length ?due"
      by simp
    with len assms have "length ?rest = 0"
      unfolding single_flight_def by linarith
    then have "?rest = []"
      by simp
    with fold_callbacks_reset [OF cb ne] show ?thesis
      by (simp add: elapse_def Let_def)
  qed
  from len assms have "length ?rest \<le> 1"
    by (simp add: single_flight_def)
  moreover from assms have "\<forall>tm \<in> set ?rest. snd tm = [SetIsAnalyzing False]"
    by (simp add: single_flight_def)
  ultimately show ?thesis
    using flag tm unfolding single_flight_def by simp
qed

lemma single_flight_step: "single_flight w \<Longrightarrow> single_flight (step ev w)"
proof (cases ev)
  case (Change v)
  assume "single_flight w"
  with Change show ?thesis
    by (simp add: single_flight_def handleChange_def handleChange_body_def)
next
  case SubmitForm
  assume "single_flight w"
  with SubmitForm show ?thesis
    by (auto simp: single_flight_def handleAnalyze_result can_submit_def render_def)
next
  case (Elapse ms)
  assume "single_flight w"
  with Elapse show ?thesis by (simp add: single_flight_elapse)
qed

lemma single_flight_run: "single_flight (run evs)"
proof -
  have "single_flight w \<Longrightarrow> single_flight (fold step evs w)" for w
    by (induction evs arbitrary: w) (simp_all add: single_flight_step)
  moreover have "single_flight initial_world"
    by (simp add: single_flight_def initial_world_def initial_state_def)
  ultimately show ?thesis by (simp add: run_def)
qed

lemma blocked_submit: "isAnalyzing (state w) \<Longrightarrow> step SubmitForm w = w"
  by (simp add: can_submit_def render_def)

lemma run_acme:
  "run [Change ''Acme'', SubmitForm] =
     \<lparr>state = \<lparr>companyName = ''Acme'', isAnalyzing = True\<rparr>,
      console = [[''Analyzing company:'', ''Acme'']],
      timers = [(2000, [SetIsAnalyzing False])], now = 0, requests = []\<rparr>"
  by (simp add: run_def initial_world_def initial_state_def handleChange_def
      handleChange_body_def can_submit_def render_def handleAnalyze_result)

subsection \<open>The analyze form is a placeholder\<close>

text \<open>
  Claim C1. For every company name held in the state, \<^verbatim>\<open>handleAnalyze\<close> does
  exactly four things: it prevents the event's default, sets \<^verbatim>\<open>isAnalyzing\<close> to true,
  logs the line \<^verbatim>\<open>"Analyzing company:", companyName\<close>, and registers a timer due
  2000 ms later whose callback sets \<^verbatim>\<open>isAnalyzing\<close> to false. Its body holds no
  network request, it leaves the requests sent as they were, no sequence of user
  events and elapsed time ever sends one, and in every state the three result cards
  render the value \<^verbatim>\<open>--\<close>.
\<close>

theorem handleAnalyze_is_placeholder:
  "handleAnalyze e w =
     (e\<lparr>defaultPrevented := True\<rparr>,
      w\<lparr>state := (state w)\<lparr>isAnalyzing := True\<rparr>,
        console := console w @ [[''Analyzing company:'', companyName (state w)]],
        timers := timers w @ [(now w + 2000, [SetIsAnalyzing False])]\<rparr>)
   \<and> (\<forall>m url. HttpRequest m url \<notin> set (handleAnalyze_body name))
   \<and> requests (snd (handleAnalyze e w)) = requests w
   \<and> requests (run evs) = []
   \<and> map card_value (result_cards (render s)) = [''--'', ''--'', ''--'']"
proof -
  have "\<forall>m url. HttpRequest m url \<notin> set (handleAnalyze_body name)"
    by (simp add: handleAnalyze_body_def)
  moreover have "requests (snd (handleAnalyze e w)) = requests w"
    by (simp add: handleAnalyze_result)
  moreover have "requests (run evs) = []"
    by (simp add: run_def requests_fold_step initial_world_def)
  moreover have "map card_value (result_cards (render s)) = [''--'', ''--'', ''--'']"
    by (simp add: render_def)
  ultimately show ?thesis
    using handleAnalyze_result [of e w] by simp
qed

subsection \<open>The submit button while an analysis is pending\<close>

text \<open>
  Claim C10. The submit button is rendered disabled exactly when \<^verbatim>\<open>isAnalyzing\<close> is
  true, and a form submission attempted in such a state changes nothing, so that in
  every state the page can reach at most one timer is pending, and one is pending
  exactly while \<^verbatim>\<open>isAnalyzing\<close> is true. After any invocation of
  \<^verbatim>\<open>handleAnalyze\<close> in a reachable state, and from any reachable state at all, once
  2000 ms have passed with no further submission (the input may change meanwhile)
  \<^verbatim>\<open>isAnalyzing\<close> is false again.
\<close>

theorem analyze_button_guard_and_reset:
  "button_disabled (render s) = isAnalyzing s
   \<and> (isAnalyzing (state w) \<longrightarrow> step SubmitForm w = w)
   \<and> length (timers (run evs)) \<le> 1
   \<and> isAnalyzing (state (run evs)) = (timers (run evs) \<noteq> [])
   \<and> (SubmitForm \<notin> set evs' \<and> 2000 \<le> total_elapsed evs' \<longrightarrow>
        \<not> isAnalyzing (state (fold step evs' (snd (handleAnalyze e (run evs))))))
   \<and> (SubmitForm \<notin> set evs' \<and> 2000 \<le> total_elapsed evs' \<longrightarrow>
        \<not> isAnalyzing (state (fold step evs' (run evs))))"
proof -
  have "button_disabled (render s) = isAnalyzing s"
    by (simp add: render_def)
  moreover have "isAnalyzing (state w) \<longrightarrow> step SubmitForm w = w"
    using blocked_submit [of w] by blast
  moreover have "length (timers (run evs)) \<le> 1"
    and "isAnalyzing (state (run evs)) = (timers (run evs) \<noteq> [])"
    using single_flight_run [of evs] by (simp_all add: single_flight_def)
  moreover have "SubmitForm \<notin> set evs' \<and> 2000 \<le> total_elapsed evs' \<longrightarrow>
        \<not> isAnalyzing (state (fold step evs' (snd (handleAnalyze e (run evs)))))"
    using analysis_ends [OF timers_ok_handleAnalyze [OF timers_ok_run]] by simp
  moreover have "SubmitForm \<notin> set evs' \<and> 2000 \<le> total_elapsed evs' \<longrightarrow>
        \<not> isAnalyzing (state (fold step evs' (run evs)))"
    using analysis_ends [OF timers_ok_run] by simp
  ultimately show ?thesis by simp
qed

text \<open>
  The hypotheses of C10 hold after typing ``Acme'' and submitting: the flag is set and a
  second submission changes nothing; 500 ms, an edit of the input and 1500 ms later
  the flag is reset.
\<close>

theorem analyze_button_guard_and_reset_witness:
  "isAnalyzing (state (run [Change ''Acme'', SubmitForm]))
   \<and> step SubmitForm (run [Change ''Acme'', SubmitForm]) = run [Change ''Acme'', SubmitForm]
   \<and> SubmitForm \<notin> set [Elapse 500, Change ''Acme Corp'', Elapse 1500]
   \<and> 2000 \<le> total_elapsed [Elapse 500, Change ''Acme Corp'', Elapse 1500]
   \<and> \<not> isAnalyzing (state (fold step [Elapse 500, Change ''Acme Corp'', Elapse 1500]
         (snd (handleAnalyze fresh_event (run [Change ''Acme'', SubmitForm])))))
   \<and> \<not> isAnalyzing (state (fold step [Elapse 500, Change ''Acme Corp'', Elapse 1500]
         (run [Change ''Acme'', SubmitForm])))"
proof -
  have h1: "isAnalyzing (state (run [Change ''Acme'', SubmitForm]))"
    by (simp add: run_acme)
  have h2: "SubmitForm \<notin> set [Elapse 500, Change ''Acme Corp'', Elapse 1500]
      \<and> 2000 \<le> total_elapsed [Elapse 500, Change ''Acme Corp'', Elapse 1500]"
    by simp
  from h1 h2
    analyze_button_guard_and_reset [of "state (run [Change ''Acme'', SubmitForm])"
      "run [Change ''Acme'', SubmitForm]" "[Change ''Acme'', SubmitForm]"
      "[Elapse 500, Change ''Acme Corp'', Elapse 1500]" fresh_event]
  show ?thesis by blast
qed

end
